theory Spec2Isabelle
  imports Complex_Main "HOL-Library.Multiset" "HOL-Library.Option_ord"
begin

section \<open>Data model\<close>

text \<open>
  The repository is one file, \<^verbatim>\<open>utility/data_utility.py\<close>, with two functions over polars
  data frames: \<^verbatim>\<open>data_prep\<close> and \<^verbatim>\<open>clades_to_model\<close>. A data frame is modelled as the
  list of its rows, a nullable column as an \<open>option\<close>, and a polars \<^verbatim>\<open>Date\<close> as the number
  of days since 1970-01-01, which is how polars stores it.

  Counts are natural numbers. polars stores them in 32 bits, and a frame holds fewer than
  \<open>2^32\<close> rows, so the counts that \<^verbatim>\<open>data_prep\<close> produces never sum past the word size.
  The \<^verbatim>\<open>Float64\<close> division and comparison of \<^verbatim>\<open>clades_to_model\<close> are modelled on exact
  rationals; rounding is outside the model. So is a frame that lacks a column the code
  names, on which polars raises: the row types below have every column.
\<close>

type_synonym day = int

text \<open>A row of the line list, with the five columns \<^verbatim>\<open>cols\<close> that \<^verbatim>\<open>data_prep\<close> selects.
  The column \<^verbatim>\<open>date\<close> is kept as it arrives (type \<open>'d\<close>), before the cast.\<close>

record 'd raw_row =
  clade_nextstrain :: "string option"
  country :: "string option"
  division :: "string option"
  host :: "string option"
  date_raw :: 'd

text \<open>A row of the frame that \<^verbatim>\<open>data_prep\<close> returns and \<^verbatim>\<open>clades_to_model\<close> takes.\<close>

record agg_row =
  location :: "string option"
  date :: "day option"
  clade :: "string option"
  count :: nat

text \<open>A row of the weekly frame \<^verbatim>\<open>df\<close> of \<^verbatim>\<open>clades_to_model\<close> (columns \<^verbatim>\<open>clade\<close>,
  \<^verbatim>\<open>date\<close>, \<^verbatim>\<open>count\<close>), and of the rows that enter it.\<close>

record week_row =
  clade_w :: "string option"
  date_w :: day
  count_w :: nat

text \<open>A row of \<^verbatim>\<open>prop_dat\<close>. The proportion is \<open>None\<close> where the division is by zero
  (the \<^verbatim>\<open>Float64\<close> result is then not a number).\<close>

record prop_row =
  clade_p :: "string option"
  date_p :: day
  count_p :: nat
  total_count :: nat
  proportion :: "rat option"

text \<open>
  polars fixes no row order for \<^verbatim>\<open>group_by\<close> and \<^verbatim>\<open>unique\<close> (without
  \<^verbatim>\<open>maintain_order\<close>), \<^verbatim>\<open>sort\<close> is not stable, and whether a not-a-number compares
  greater than a number has changed between versions. The model takes these choices as a
  parameter: an engine gives the order in which each such operation emits its rows, and the
  truth value of \<^verbatim>\<open>NaN > threshold\<close>. A stable sort after an arbitrary reordering yields
  every sorted order.
\<close>

record engine =
  group_order :: "agg_row list \<Rightarrow> agg_row list"
  unique_order :: "string option list \<Rightarrow> string option list"
  total_order :: "(string option \<times> nat) list \<Rightarrow> (string option \<times> nat) list"
  nan_exceeds :: bool

definition engine_ok :: "engine \<Rightarrow> bool" where
  "engine_ok e \<longleftrightarrow>
     (\<forall>xs. mset (group_order e xs) = mset xs) \<and>
     (\<forall>xs. mset (unique_order e xs) = mset xs) \<and>
     (\<forall>xs. mset (total_order e xs) = mset xs)"

text \<open>The engine that leaves every order as the model computes it.\<close>

definition plain_engine :: engine where
  "plain_engine =
     \<lparr>group_order = (\<lambda>xs. xs), unique_order = (\<lambda>xs. xs), total_order = (\<lambda>xs. xs),
      nan_exceeds = True\<rparr>"

datatype error = AttributeError | OverflowError | InvalidOperationError

section \<open>\<^verbatim>\<open>data_prep\<close>\<close>

definition states :: "string list" where
  "states =
    [''Alabama'', ''Alaska'', ''Arizona'', ''Arkansas'', ''California'', ''Colorado'',
     ''Connecticut'', ''Delaware'', ''Florida'', ''Georgia'', ''Hawaii'', ''Idaho'',
     ''Illinois'', ''Indiana'', ''Iowa'', ''Kansas'', ''Kentucky'', ''Louisiana'', ''Maine'',
     ''Maryland'', ''Massachusetts'', ''Michigan'', ''Minnesota'', ''Mississippi'',
     ''Missouri'', ''Montana'', ''Nebraska'', ''Nevada'', ''New Hampshire'', ''New Jersey'',
     ''New Mexico'', ''New York'', ''North Carolina'', ''North Dakota'', ''Ohio'',
     ''Oklahoma'', ''Oregon'', ''Pennsylvania'', ''Rhode Island'', ''South Carolina'',
     ''South Dakota'', ''Tennessee'', ''Texas'', ''Utah'', ''Vermont'', ''Virginia'',
     ''Washington'', ''West Virginia'', ''Wisconsin'', ''Wyoming'', ''Washington DC'']"

text \<open>The four predicates of \<^verbatim>\<open>.filter(...)\<close>, on a row whose date is cast by
  \<open>cast_date\<close> (\<^verbatim>\<open>cast({"date": pl.Date}, strict=False)\<close>: a value that does not cast
  becomes null). A comparison with null is null, and \<^verbatim>\<open>filter\<close> drops the row.\<close>

definition keep_row :: "('d \<Rightarrow> day option) \<Rightarrow> 'd raw_row \<Rightarrow> bool" where
  "keep_row cast_date r \<longleftrightarrow>
     country r = Some ''USA'' \<and>
     (case division r of None \<Rightarrow> False | Some s \<Rightarrow> s \<in> set states) \<and>
     cast_date (date_raw r) \<noteq> None \<and>
     host r = Some ''Homo sapiens''"

text \<open>The grouping key \<^verbatim>\<open>("location", "date", "clade")\<close> of a row, after the renaming
  of \<^verbatim>\<open>division\<close> to \<^verbatim>\<open>location\<close> and of \<^verbatim>\<open>clade_nextstrain\<close> to \<^verbatim>\<open>clade\<close>.\<close>

type_synonym key = "string option \<times> day option \<times> string option"

definition row_key :: "('d \<Rightarrow> day option) \<Rightarrow> 'd raw_row \<Rightarrow> key" where
  "row_key cast_date r = (division r, cast_date (date_raw r), clade_nextstrain r)"

definition agg_key :: "agg_row \<Rightarrow> key" where
  "agg_key r = (location r, date r, clade r)"

text \<open>\<^verbatim>\<open>group_by("location", "date", "clade").agg(pl.len().alias("count"))\<close>: one row for
  each key, with the number of rows of the group.\<close>

definition group_len :: "key list \<Rightarrow> agg_row list" where
  "group_len ks =
     map (\<lambda>k. \<lparr>location = fst k, date = fst (snd k), clade = snd (snd k),
               count = length (filter (\<lambda>k'. k' = k) ks)\<rparr>)
       (remdups ks)"

definition data_prep :: "engine \<Rightarrow> ('d \<Rightarrow> day option) \<Rightarrow> 'd raw_row list \<Rightarrow> agg_row list" where
  "data_prep e cast_date dataf =
     (let df = map (row_key cast_date) (filter (keep_row cast_date) dataf);
          counts_dat = group_order e (group_len (sort_key (\<lambda>k. fst (snd k)) df))
      in sort_key date counts_dat)"

section \<open>\<^verbatim>\<open>clades_to_model\<close>\<close>

text \<open>Python's \<^verbatim>\<open>date.weekday()\<close>: Monday is 0 and Sunday is 6. Day 0, 1970-01-01, was a
  Thursday.\<close>

definition weekday :: "day \<Rightarrow> int" where
  "weekday d = (d + 3) mod 7"

text \<open>The start of the window of \<^verbatim>\<open>group_by_dynamic(every="1w", start_by="sunday")\<close>
  that holds day \<open>d\<close>: the Sunday on or before \<open>d\<close>.\<close>

definition week_start :: "day \<Rightarrow> day" where
  "week_start d = d - (d + 4) mod 7"

text \<open>\<^verbatim>\<open>Series.max()\<close>: nulls are skipped, and the result is null when nothing is left.\<close>

definition col_max :: "day option list \<Rightarrow> day option" where
  "col_max ds =
     (case concat (map (\<lambda>d. case d of None \<Rightarrow> [] | Some x \<Rightarrow> [x]) ds) of
        [] \<Rightarrow> None
      | x # xs \<Rightarrow> Some (fold max xs x))"

text \<open>The days that Python's \<^verbatim>\<open>datetime.date\<close> holds: 0001-01-01 to 9999-12-31.\<close>

definition date_min :: day where "date_min = - 719162"
definition date_max :: day where "date_max = 2932896"

definition in_range :: "day \<Rightarrow> bool" where
  "in_range d \<longleftrightarrow> date_min \<le> d \<and> d \<le> date_max"

definition three_sundays_ago :: "day \<Rightarrow> int \<Rightarrow> day" where
  "three_sundays_ago max_day threshold_weeks =
     max_day - (weekday max_day + 7 * threshold_weeks)"

text \<open>\<^verbatim>\<open>dataf.filter(pl.col("date") >= three_sundays_ago)\<close>: a null date compares to null
  and the row is dropped. The rows kept have a date, and the model keeps of them the three
  columns that the aggregation reads.\<close>

definition filter_window :: "agg_row list \<Rightarrow> day \<Rightarrow> week_row list" where
  "filter_window dataf start =
     concat (map (\<lambda>r. case date r of
                         None \<Rightarrow> []
                       | Some d \<Rightarrow> if start \<le> d
                                  then [\<lparr>clade_w = clade r, date_w = d, count_w = count r\<rparr>]
                                  else [])
              dataf)"

text \<open>\<^verbatim>\<open>group_by_dynamic\<close> refuses an index column that is not sorted within each
  group.\<close>

definition sorted_in_groups :: "week_row list \<Rightarrow> bool" where
  "sorted_in_groups rows \<longleftrightarrow>
     list_all (\<lambda>c. sorted (map date_w (filter (\<lambda>r. clade_w r = c) rows)))
       (remdups (map clade_w rows))"

text \<open>\<^verbatim>\<open>group_by_dynamic("date", every="1w", start_by="sunday", group_by="clade")
  .agg(pl.col("count").sum())\<close>: within each clade, one row for each week that has a row,
  labelled by the week's Sunday, with the sum of the counts.\<close>

definition weekly_sums :: "week_row list \<Rightarrow> week_row list" where
  "weekly_sums rows =
     concat (map (\<lambda>c.
       let g = filter (\<lambda>r. clade_w r = c) rows
       in map (\<lambda>w. \<lparr>clade_w = c, date_w = w,
                    count_w = sum_list (map count_w
                                (filter (\<lambda>r. week_start (date_w r) = w) g))\<rparr>)
            (remdups (map (\<lambda>r. week_start (date_w r)) g)))
       (remdups (map clade_w rows)))"

definition group_by_dynamic :: "week_row list \<Rightarrow> error + week_row list" where
  "group_by_dynamic rows =
     (if \<not> sorted_in_groups rows then Inl InvalidOperationError
      else Inr (weekly_sums rows))"

text \<open>\<^verbatim>\<open>df.group_by("date").agg(pl.col("count").sum().alias("total_count"))\<close>.\<close>

definition total_counts :: "week_row list \<Rightarrow> (day \<times> nat) list" where
  "total_counts df =
     map (\<lambda>w. (w, sum_list (map count_w (filter (\<lambda>r. date_w r = w) df))))
       (remdups (map date_w df))"

text \<open>\<^verbatim>\<open>pl.col("count") / pl.col("total_count")\<close>: true division of integers. It does
  not raise on a zero divisor.\<close>

definition true_div :: "nat \<Rightarrow> nat \<Rightarrow> rat option" where
  "true_div c t = (if t = 0 then None else Some (of_nat c / of_nat t))"

text \<open>\<^verbatim>\<open>df.join(total_counts, on="date").with_columns(...)\<close>: the inner join pairs each
  row of \<^verbatim>\<open>df\<close> with the rows of \<^verbatim>\<open>total_counts\<close> of the same date.\<close>

definition prop_dat :: "week_row list \<Rightarrow> prop_row list" where
  "prop_dat df =
     concat (map (\<lambda>l. map (\<lambda>t. \<lparr>clade_p = clade_w l, date_p = date_w l, count_p = count_w l,
                                total_count = snd t,
                                proportion = true_div (count_w l) (snd t)\<rparr>)
                        (filter (\<lambda>t. fst t = date_w l) (total_counts df)))
              df)"

text \<open>\<^verbatim>\<open>pl.col("proportion") > threshold\<close>.\<close>

definition crosses :: "engine \<Rightarrow> rat \<Rightarrow> prop_row \<Rightarrow> bool" where
  "crosses e threshold p =
     (case proportion p of None \<Rightarrow> nan_exceeds e | Some q \<Rightarrow> threshold < q)"

text \<open>\<^verbatim>\<open>prop_dat.filter(...).get_column("clade").unique().to_list()\<close>.\<close>

definition high_prev_variants :: "engine \<Rightarrow> rat \<Rightarrow> prop_row list \<Rightarrow> string option list" where
  "high_prev_variants e threshold pd =
     unique_order e (remdups (map clade_p (filter (crosses e threshold) pd)))"

text \<open>\<^verbatim>\<open>prop_dat.group_by("clade").agg(pl.col("count").sum())\<close>.\<close>

definition clade_totals :: "engine \<Rightarrow> prop_row list \<Rightarrow> (string option \<times> nat) list" where
  "clade_totals e pd =
     total_order e
       (map (\<lambda>c. (c, sum_list (map count_p (filter (\<lambda>p. clade_p p = c) pd))))
          (remdups (map clade_p pd)))"

text \<open>\<^verbatim>\<open>.sort("count").get_column("clade").to_list()\<close>: the clades of
  \<^verbatim>\<open>prop_dat\<close> by rising total count.\<close>

definition ranking :: "engine \<Rightarrow> prop_row list \<Rightarrow> string option list" where
  "ranking e pd = map fst (sort_key snd (clade_totals e pd))"

text \<open>The selection at the end of \<^verbatim>\<open>clades_to_model\<close>, from \<^verbatim>\<open>prop_dat\<close> on.\<close>

definition select_clades :: "engine \<Rightarrow> rat \<Rightarrow> prop_row list \<Rightarrow> string option list" where
  "select_clades e threshold pd =
     (let hp = high_prev_variants e threshold pd
      in if 9 < length hp then take 9 (ranking e pd) else hp)"

text \<open>
  The whole function. It raises where \<^verbatim>\<open>max()\<close> is null (no row, or no row with a date:
  \<^verbatim>\<open>None\<close> has no \<^verbatim>\<open>weekday\<close>), where the greatest date or the start of the window is
  not a day that \<^verbatim>\<open>datetime.date\<close> holds, and where \<^verbatim>\<open>group_by_dynamic\<close> refuses its
  input.
\<close>

definition clades_to_model ::
  "engine \<Rightarrow> agg_row list \<Rightarrow> rat \<Rightarrow> int \<Rightarrow> error + string option list" where
  "clades_to_model e dataf threshold threshold_weeks =
     (case col_max (map date dataf) of
        None \<Rightarrow> Inl AttributeError
      | Some max_day \<Rightarrow>
          if \<not> in_range max_day then Inl OverflowError
          else let start = three_sundays_ago max_day threshold_weeks
               in if \<not> in_range start then Inl OverflowError
                  else (case group_by_dynamic (filter_window dataf start) of
                          Inl err \<Rightarrow> Inl err
                        | Inr df \<Rightarrow> Inr (select_clades e threshold (prop_dat df))))"

section \<open>What the claims speak of\<close>

text \<open>The rows of the window: those that \<^verbatim>\<open>clades_to_model\<close> keeps after its filter.\<close>

definition window :: "agg_row list \<Rightarrow> int \<Rightarrow> week_row list" where
  "window dataf threshold_weeks =
     (case col_max (map date dataf) of
        None \<Rightarrow> []
      | Some max_day \<Rightarrow> filter_window dataf (three_sundays_ago max_day threshold_weeks))"

text \<open>The count of a clade in a week, the count of a week, and the count of a clade over
  all the rows, each summed directly from the rows.\<close>

definition week_count :: "week_row list \<Rightarrow> string option \<Rightarrow> day \<Rightarrow> nat" where
  "week_count rows c w =
     sum_list (map count_w (filter (\<lambda>r. week_start (date_w r) = w)
                              (filter (\<lambda>r. clade_w r = c) rows)))"

definition week_total :: "week_row list \<Rightarrow> day \<Rightarrow> nat" where
  "week_total rows w =
     sum_list (map count_w (filter (\<lambda>r. week_start (date_w r) = w) rows))"

definition window_total :: "week_row list \<Rightarrow> string option \<Rightarrow> nat" where
  "window_total rows c = sum_list (map count_w (filter (\<lambda>r. clade_w r = c) rows))"

text \<open>A clade crosses the threshold when, in some week in which it has a row, its share
  of the week's count is greater than the threshold.\<close>

definition exceeds :: "engine \<Rightarrow> rat \<Rightarrow> nat \<Rightarrow> nat \<Rightarrow> bool" where
  "exceeds e threshold c t =
     (case true_div c t of None \<Rightarrow> nan_exceeds e | Some q \<Rightarrow> threshold < q)"

definition crosses_in :: "engine \<Rightarrow> rat \<Rightarrow> week_row list \<Rightarrow> string option \<Rightarrow> bool" where
  "crosses_in e threshold rows c \<longleftrightarrow>
     list_ex (\<lambda>r. clade_w r = c \<and>
                  exceeds e threshold (week_count rows c (week_start (date_w r)))
                    (week_total rows (week_start (date_w r))))
       rows"

definition crossing :: "engine \<Rightarrow> rat \<Rightarrow> week_row list \<Rightarrow> string option list" where
  "crossing e threshold rows =
     remdups (filter (crosses_in e threshold rows) (map clade_w rows))"

text \<open>What the specification asks of the input of \<^verbatim>\<open>clades_to_model\<close>: it has a row,
  every row has a date, and the number of weeks is positive. The frame is sorted by date,
  as \<^verbatim>\<open>data_prep\<close> returns it, and its dates and the days back to the start of the
  window are days that \<^verbatim>\<open>datetime.date\<close> holds.\<close>

definition preconditions :: "agg_row list \<Rightarrow> int \<Rightarrow> bool" where
  "preconditions dataf threshold_weeks \<longleftrightarrow>
     dataf \<noteq> [] \<and>
     list_all (\<lambda>r. case date r of
                       None \<Rightarrow> False
                     | Some d \<Rightarrow> in_range d \<and> in_range (d - (6 + 7 * threshold_weeks)))
       dataf \<and>
     sorted (map date dataf) \<and>
     0 < threshold_weeks"

section \<open>Example frames\<close>

definition row :: "string \<Rightarrow> day \<Rightarrow> string \<Rightarrow> nat \<Rightarrow> agg_row" where
  "row l d c n = \<lparr>location = Some l, date = Some d, clade = Some c, count = n\<rparr>"

definition raw ::
  "string \<Rightarrow> string \<Rightarrow> string \<Rightarrow> string \<Rightarrow> day option \<Rightarrow> (day option) raw_row" where
  "raw c co di h d =
     \<lparr>clade_nextstrain = Some c, country = Some co, division = Some di, host = Some h,
      date_raw = d\<rparr>"

text \<open>One row on Wednesday 2024-01-10 (day 19732).\<close>

definition ex_one :: "agg_row list" where
  "ex_one = [row ''California'' 19732 ''A'' 5]"

text \<open>Eleven clades on Monday 2023-12-25 (day 19716), with one to 109 sequences, and one
  of them again on Wednesday 2024-01-10.\<close>

definition ex_many :: "agg_row list" where
  "ex_many =
     [row ''Ohio'' 19716 ''K'' 1, row ''Ohio'' 19716 ''A'' 100, row ''Ohio'' 19716 ''B'' 101,
      row ''Ohio'' 19716 ''C'' 102, row ''Ohio'' 19716 ''D'' 103, row ''Ohio'' 19716 ''E'' 104,
      row ''Ohio'' 19716 ''F'' 105, row ''Ohio'' 19716 ''G'' 106, row ''Ohio'' 19716 ''H'' 107,
      row ''Ohio'' 19716 ''I'' 108, row ''Ohio'' 19716 ''J'' 109, row ''Texas'' 19732 ''A'' 50]"

text \<open>A line list: three sequences of one clade in California on one day, one from a dog,
  one from Puerto Rico, one whose date did not cast, and one from Canada.\<close>

definition ex_raw :: "(day option) raw_row list" where
  "ex_raw =
     [raw ''XBB'' ''USA'' ''California'' ''Homo sapiens'' (Some 19732),
      raw ''XBB'' ''USA'' ''California'' ''Canis lupus'' (Some 19732),
      raw ''XBB'' ''USA'' ''California'' ''Homo sapiens'' (Some 19732),
      raw ''XBB'' ''USA'' ''Puerto Rico'' ''Homo sapiens'' (Some 19732),
      raw ''XBB'' ''USA'' ''Texas'' ''Homo sapiens'' None,
      raw ''BA.2'' ''Canada'' ''Ontario'' ''Homo sapiens'' (Some 19730),
      raw ''BA.2'' ''USA'' ''Texas'' ''Homo sapiens'' (Some 19730),
      raw ''XBB'' ''USA'' ''California'' ''Homo sapiens'' (Some 19732)]"

section \<open>The start of the window\<close>

lemma weekday_bounds: "0 \<le> weekday d" "weekday d \<le> 6"
  unfolding weekday_def by simp_all

lemma next_weekday: "(d + 4) mod 7 = (if weekday d = 6 then 0 else weekday d + 1)"
proof -
  have "(d + 4) mod 7 = ((d + 3) mod 7 + 1) mod 7"
    by (simp add: mod_simps add.commute)
  moreover have "0 \<le> (d + 3) mod 7" "(d + 3) mod 7 < 7"
    by simp_all
  ultimately show ?thesis
    unfolding weekday_def by (auto simp: mod_pos_pos_trivial)
qed

lemma three_sundays_ago_week_start:
  "three_sundays_ago max_day threshold_weeks =
     week_start max_day - 7 * threshold_weeks + (if weekday max_day = 6 then - 6 else 1)"
  unfolding three_sundays_ago_def week_start_def next_weekday by simp

lemma weekday_three_sundays_ago: "weekday (three_sundays_ago max_day threshold_weeks) = 0"
  unfolding three_sundays_ago_def weekday_def by presburger

text \<open>
  Claim C1 says that the start of the window is the Sunday on or before \<open>max_day\<close>, minus
  \<open>threshold_weeks\<close> weeks. The code subtracts \<^verbatim>\<open>max_day.weekday()\<close>, which counts from
  Monday, so the start is always a Monday: the day after the Sunday of the claim, or six
  days before it when \<open>max_day\<close> is itself a Sunday. At Wednesday 2024-01-10 (day 19732)
  and three weeks, the code gives Monday 2023-12-18 (day 19709) and the claim Sunday
  2023-12-17 (day 19708).
\<close>

theorem three_sundays_ago_is_monday:
  "weekday (three_sundays_ago max_day threshold_weeks) = 0 \<and>
   three_sundays_ago max_day threshold_weeks =
     week_start max_day - 7 * threshold_weeks + (if weekday max_day = 6 then - 6 else 1) \<and>
   three_sundays_ago max_day threshold_weeks \<noteq> week_start max_day - 7 * threshold_weeks \<and>
   three_sundays_ago 19732 3 = 19709 \<and> week_start 19732 - 7 * 3 = 19708"
proof -
  have "three_sundays_ago 19732 3 = 19709" "week_start 19732 - 7 * 3 = 19708"
    unfolding three_sundays_ago_def weekday_def week_start_def by simp_all
  moreover have
    "three_sundays_ago max_day threshold_weeks \<noteq> week_start max_day - 7 * threshold_weeks"
    unfolding three_sundays_ago_week_start by simp
  ultimately show ?thesis
    using weekday_three_sundays_ago three_sundays_ago_week_start by blast
qed

section \<open>Sums over groups\<close>

text \<open>Summing a column group by group gives the sum of the column.\<close>

lemma sum_list_by_key:
  fixes f :: "'a \<Rightarrow> nat"
  assumes "finite A" "k ` set xs \<subseteq> A"
  shows "(\<Sum>w\<in>A. sum_list (map f (filter (\<lambda>x. k x = w) xs))) = sum_list (map f xs)"
  using assms(2)
proof (induction xs)
  case Nil
  then show ?case by simp
next
  case (Cons a xs)
  have "(\<Sum>w\<in>A. sum_list (map f (filter (\<lambda>x. k x = w) (a # xs)))) =
        (\<Sum>w\<in>A. (if k a = w then f a else 0) + sum_list (map f (filter (\<lambda>x. k x = w) xs)))"
    by (intro sum.cong) auto
  also have "\<dots> = f a + (\<Sum>w\<in>A. sum_list (map f (filter (\<lambda>x. k x = w) xs)))"
    using Cons.prems assms(1) by (simp add: sum.distrib)
  finally show ?case using Cons by simp
qed

lemma sum_list_remdups_key:
  fixes f :: "'a \<Rightarrow> nat"
  shows "sum_list (map (\<lambda>w. sum_list (map f (filter (\<lambda>x. k x = w) xs))) (remdups (map k xs)))
         = sum_list (map f xs)"
  using sum_list_by_key [of "set (map k xs)" k xs f]
  by (simp add: sum_list_distinct_conv_sum_set)

lemma filter_eq_remdups:
  "filter (\<lambda>k. k = a) (remdups ks) = (if a \<in> set ks then [a] else [])"
  by (induction ks) auto

lemma sum_list_if_eq:
  fixes g :: "'a \<Rightarrow> nat"
  shows "distinct cs \<Longrightarrow>
    sum_list (map (\<lambda>c'. if c' = c then g c' else 0) cs) = (if c \<in> set cs then g c else 0)"
  by (induction cs) auto

section \<open>The weekly frame\<close>

lemma sum_list_filter_concat_map:
  fixes f :: "'b \<Rightarrow> nat"
  shows "sum_list (map f (filter P (concat (map F cs)))) =
         sum_list (map (\<lambda>c. sum_list (map f (filter P (F c)))) cs)"
  by (induction cs) simp_all

lemma week_count_absent:
  "w \<notin> (\<lambda>r. week_start (date_w r)) ` set (filter (\<lambda>r. clade_w r = c) rows) \<Longrightarrow>
   week_count rows c w = 0"
  unfolding week_count_def by (auto simp: filter_empty_conv image_iff)

lemma window_total_absent: "c \<notin> clade_w ` set rows \<Longrightarrow> window_total rows c = 0"
  unfolding window_total_def by (auto simp: filter_empty_conv image_iff)

lemma set_weekly_sums:
  "set (weekly_sums rows) =
     (\<lambda>r. \<lparr>clade_w = clade_w r, date_w = week_start (date_w r),
            count_w = week_count rows (clade_w r) (week_start (date_w r))\<rparr>) ` set rows"
proof -
  have "\<exists>x\<in>set rows. clade_w a = clade_w x \<and> week_start (date_w b) = week_start (date_w x) \<and>
          week_count rows (clade_w a) (week_start (date_w b)) =
          week_count rows (clade_w x) (week_start (date_w x))"
    if "a \<in> set rows" "b \<in> set rows" "clade_w b = clade_w a" for a b
    using that by (intro bexI [of _ b]) simp_all
  then show ?thesis
    unfolding weekly_sums_def Let_def week_count_def by (auto simp: image_iff)
qed

lemma weekly_sums_week:
  "sum_list (map count_w (filter (\<lambda>x. date_w x = w) (weekly_sums rows))) = week_total rows w"
proof -
  let ?wk = "\<lambda>r. week_start (date_w r)"
  have inner: "sum_list (map count_w (filter (\<lambda>x. date_w x = w)
          (map (\<lambda>w'. \<lparr>clade_w = c, date_w = w',
                      count_w = sum_list (map count_w (filter (\<lambda>r. ?wk r = w')
                                  (filter (\<lambda>r. clade_w r = c) rows)))\<rparr>)
            (remdups (map ?wk (filter (\<lambda>r. clade_w r = c) rows)))))) =
        week_count rows c w" for c
    using week_count_absent [of w c rows]
    by (simp add: filter_map o_def filter_eq_remdups week_count_def)
  have "sum_list (map count_w (filter (\<lambda>x. date_w x = w) (weekly_sums rows))) =
        sum_list (map (\<lambda>c. week_count rows c w) (remdups (map clade_w rows)))"
    unfolding weekly_sums_def Let_def sum_list_filter_concat_map inner ..
  also have "\<dots> = (\<Sum>c\<in>set (map clade_w rows). week_count rows c w)"
    by (simp add: sum_list_distinct_conv_sum_set)
  also have "\<dots> = (\<Sum>c\<in>set (map clade_w rows).
       sum_list (map count_w (filter (\<lambda>r. clade_w r = c) (filter (\<lambda>r. ?wk r = w) rows))))"
    unfolding week_count_def by (simp add: conj_commute)
  also have "\<dots> = week_total rows w"
    unfolding week_total_def by (rule sum_list_by_key) auto
  finally show ?thesis .
qed

lemma weekly_sums_clade:
  "sum_list (map count_w (filter (\<lambda>x. clade_w x = c) (weekly_sums rows))) = window_total rows c"
proof -
  let ?wk = "\<lambda>r. week_start (date_w r)"
  let ?F = "\<lambda>c'. map (\<lambda>w'. \<lparr>clade_w = c', date_w = w',
                      count_w = sum_list (map count_w (filter (\<lambda>r. ?wk r = w')
                                  (filter (\<lambda>r. clade_w r = c') rows)))\<rparr>)
            (remdups (map ?wk (filter (\<lambda>r. clade_w r = c') rows)))"
  have inner: "sum_list (map count_w (filter (\<lambda>x. clade_w x = c) (?F c'))) =
        (if c' = c then window_total rows c' else 0)" for c'
  proof (cases "c' = c")
    case True
    have "filter (\<lambda>x. clade_w x = c) (?F c) = ?F c"
      by (simp add: filter_map o_def)
    then show ?thesis
      using True sum_list_remdups_key [of count_w ?wk "filter (\<lambda>r. clade_w r = c) rows"]
      by (simp add: o_def window_total_def)
  next
    case False
    then show ?thesis by (simp add: filter_map o_def)
  qed
  have "sum_list (map count_w (filter (\<lambda>x. clade_w x = c) (weekly_sums rows))) =
        sum_list (map (\<lambda>c'. if c' = c then window_total rows c' else 0)
                   (remdups (map clade_w rows)))"
    unfolding weekly_sums_def Let_def sum_list_filter_concat_map inner ..
  also have "\<dots> = window_total rows c"
    using window_total_absent [of c rows] by (simp add: sum_list_if_eq)
  finally show ?thesis .
qed

lemma prop_dat_rows:
  "prop_dat df =
     map (\<lambda>l. \<lparr>clade_p = clade_w l, date_p = date_w l, count_p = count_w l,
               total_count = sum_list (map count_w (filter (\<lambda>r. date_w r = date_w l) df)),
               proportion = true_div (count_w l)
                 (sum_list (map count_w (filter (\<lambda>r. date_w r = date_w l) df)))\<rparr>) df"
proof -
  have "filter (\<lambda>t. fst t = date_w l) (total_counts df) =
        [(date_w l, sum_list (map count_w (filter (\<lambda>r. date_w r = date_w l) df)))]"
    if "l \<in> set df" for l
    using that unfolding total_counts_def by (simp add: filter_map o_def filter_eq_remdups)
  then have eq: "map (\<lambda>l. map (\<lambda>t. \<lparr>clade_p = clade_w l, date_p = date_w l, count_p = count_w l,
                                total_count = snd t,
                                proportion = true_div (count_w l) (snd t)\<rparr>)
                        (filter (\<lambda>t. fst t = date_w l) (total_counts df))) df =
        map (\<lambda>l. [\<lparr>clade_p = clade_w l, date_p = date_w l, count_p = count_w l,
               total_count = sum_list (map count_w (filter (\<lambda>r. date_w r = date_w l) df)),
               proportion = true_div (count_w l)
                 (sum_list (map count_w (filter (\<lambda>r. date_w r = date_w l) df)))\<rparr>]) df"
    by (intro map_cong refl) simp
  show ?thesis
    unfolding prop_dat_def eq by (rule concat_map_singleton)
qed

section \<open>The selection\<close>

lemma prop_dat_weekly:
  "prop_dat (weekly_sums rows) =
     map (\<lambda>l. \<lparr>clade_p = clade_w l, date_p = date_w l, count_p = count_w l,
               total_count = week_total rows (date_w l),
               proportion = true_div (count_w l) (week_total rows (date_w l))\<rparr>)
       (weekly_sums rows)"
  by (simp add: prop_dat_rows weekly_sums_week)

lemma clades_prop_dat: "set (map clade_p (prop_dat (weekly_sums rows))) = clade_w ` set rows"
  by (simp add: prop_dat_weekly o_def set_weekly_sums image_image)

lemma prop_dat_clade_total:
  "sum_list (map count_p (filter (\<lambda>p. clade_p p = c) (prop_dat (weekly_sums rows)))) =
     window_total rows c"
  using weekly_sums_clade [of c rows]
  by (simp add: prop_dat_weekly filter_map o_def)

lemma crosses_prop_dat:
  "p \<in> set (prop_dat (weekly_sums rows)) \<Longrightarrow>
   crosses e threshold p = exceeds e threshold (count_p p) (total_count p)"
  unfolding prop_dat_weekly crosses_def exceeds_def by auto

lemma set_prop_dat_weekly:
  "set (prop_dat (weekly_sums rows)) =
     (\<lambda>r. \<lparr>clade_p = clade_w r, date_p = week_start (date_w r),
            count_p = week_count rows (clade_w r) (week_start (date_w r)),
            total_count = week_total rows (week_start (date_w r)),
            proportion = true_div (week_count rows (clade_w r) (week_start (date_w r)))
                           (week_total rows (week_start (date_w r)))\<rparr>) ` set rows"
  unfolding prop_dat_weekly by (simp add: set_weekly_sums image_image)

lemma crossing_prop_dat:
  "set (map clade_p (filter (crosses e threshold) (prop_dat (weekly_sums rows)))) =
     {c. crosses_in e threshold rows c}"
proof -
  have "set (map clade_p (filter (crosses e threshold) (prop_dat (weekly_sums rows)))) =
        clade_p ` {p \<in> set (prop_dat (weekly_sums rows)). crosses e threshold p}"
    by simp
  also have "\<dots> = clade_p ` {p \<in> set (prop_dat (weekly_sums rows)).
                        exceeds e threshold (count_p p) (total_count p)}"
    using crosses_prop_dat [of _ rows e threshold] by (intro arg_cong [where f = "image clade_p"]) blast
  also have "\<dots> = {c. crosses_in e threshold rows c}"
    unfolding set_prop_dat_weekly crosses_in_def list_ex_iff by force
  finally show ?thesis .
qed

lemma set_crossing: "set (crossing e threshold rows) = {c. crosses_in e threshold rows c}"
  unfolding crossing_def crosses_in_def list_ex_iff by auto

lemma distinct_crossing: "distinct (crossing e threshold rows)"
  unfolding crossing_def by simp

lemma high_prev_variants_crossing:
  assumes "engine_ok e"
  shows "mset (high_prev_variants e threshold (prop_dat (weekly_sums rows))) =
         mset (crossing e threshold rows)"
proof -
  let ?xs = "remdups (map clade_p (filter (crosses e threshold) (prop_dat (weekly_sums rows))))"
  have "mset (high_prev_variants e threshold (prop_dat (weekly_sums rows))) = mset ?xs"
    using assms unfolding high_prev_variants_def engine_ok_def by blast
  moreover have "set ?xs = set (crossing e threshold rows)"
    using crossing_prop_dat [of e threshold rows] by (simp add: set_crossing)
  then have "mset ?xs = mset (crossing e threshold rows)"
    using distinct_crossing by (simp add: set_eq_iff_mset_eq_distinct [symmetric])
  ultimately show ?thesis by simp
qed

lemma ranking_props:
  assumes "engine_ok e"
  shows "distinct (ranking e (prop_dat (weekly_sums rows)))"
    "set (ranking e (prop_dat (weekly_sums rows))) = clade_w ` set rows"
    "sorted (map (window_total rows) (ranking e (prop_dat (weekly_sums rows))))"
proof -
  define ys where "ys = ranking e (prop_dat (weekly_sums rows))"
  let ?pd = "prop_dat (weekly_sums rows)"
  let ?base = "map (\<lambda>c. (c, window_total rows c)) (remdups (map clade_p ?pd))"
  let ?srt = "sort_key snd (clade_totals e ?pd)"
  have ct: "clade_totals e ?pd = total_order e ?base"
    unfolding clade_totals_def by (simp add: prop_dat_clade_total)
  have "mset (total_order e ?base) = mset ?base"
    using assms(1) unfolding engine_ok_def by blast
  then have m: "mset ?srt = mset ?base"
    unfolding ct by simp
  have "mset (map fst ?srt) = mset (map fst ?base)"
    by (simp only: mset_map m)
  then have my: "mset ys = mset (remdups (map clade_p ?pd))"
    unfolding ys_def ranking_def by (simp add: o_def)
  show "distinct (ranking e ?pd)"
    using mset_eq_imp_distinct_iff [OF my] unfolding ys_def by simp
  show "set (ranking e ?pd) = clade_w ` set rows"
    using mset_eq_setD [OF my] clades_prop_dat [of rows] unfolding ys_def by simp
  have "set ?srt = set ?base"
    using m by (rule mset_eq_setD)
  then have "\<forall>x\<in>set ?srt. snd x = window_total rows (fst x)"
    by auto
  then have "map snd ?srt = map (window_total rows) ys"
    unfolding ys_def ranking_def by (simp add: o_def)
  moreover have "sorted (map snd ?srt)"
    by (rule sorted_sort_key)
  ultimately show "sorted (map (window_total rows) (ranking e ?pd))"
    unfolding ys_def by simp
qed

lemma take_sorted_smallest:
  fixes f :: "'a \<Rightarrow> nat"
  assumes "sorted (map f ys)" "c \<in> set ys" "c \<notin> set (take n ys)" "c' \<in> set (take n ys)"
  shows "f c' \<le> f c"
proof -
  have "sorted (map f (take n ys) @ map f (drop n ys))"
    using assms(1) by (simp only: map_append [symmetric] append_take_drop_id)
  then have le: "\<forall>a\<in>set (take n ys). \<forall>b\<in>set (drop n ys). f a \<le> f b"
    unfolding sorted_append by simp
  have "set (take n ys @ drop n ys) = set ys"
    by (simp only: append_take_drop_id)
  then have "c \<in> set (drop n ys)"
    using assms(2,3) unfolding set_append by blast
  then show ?thesis
    using le assms(4) by blast
qed

section \<open>Running \<^verbatim>\<open>clades_to_model\<close>\<close>

lemma select_clades_fallback:
  assumes "engine_ok e" "9 < length (crossing e threshold rows)"
  shows "select_clades e threshold (prop_dat (weekly_sums rows)) =
         take 9 (ranking e (prop_dat (weekly_sums rows)))"
  using mset_eq_length [OF high_prev_variants_crossing [OF assms(1), of threshold rows]] assms(2)
  unfolding select_clades_def Let_def by simp

lemma select_clades_threshold:
  assumes "engine_ok e" "\<not> 9 < length (crossing e threshold rows)"
  shows "mset (select_clades e threshold (prop_dat (weekly_sums rows))) =
         mset (crossing e threshold rows)"
  using mset_eq_length [OF high_prev_variants_crossing [OF assms(1), of threshold rows]] assms(2)
    high_prev_variants_crossing [OF assms(1), of threshold rows]
  unfolding select_clades_def Let_def by simp

lemma crossing_subset: "set (crossing e threshold rows) \<subseteq> clade_w ` set rows"
  unfolding crossing_def by auto

lemma length_crossing_le_ranking:
  assumes "engine_ok e"
  shows "length (crossing e threshold rows) \<le> length (ranking e (prop_dat (weekly_sums rows)))"
proof -
  have "card (set (crossing e threshold rows)) \<le> card (clade_w ` set rows)"
    by (intro card_mono crossing_subset) simp
  then show ?thesis
    using ranking_props(1,2) [OF assms, of rows] distinct_crossing [of e threshold rows]
    by (metis distinct_card)
qed

lemma set_somes:
  "set (concat (map (\<lambda>d. case d of None \<Rightarrow> [] | Some x \<Rightarrow> [x]) ds)) = {x. Some x \<in> set ds}"
  by (induction ds) (auto split: option.splits)

lemma col_max_None: "col_max ds = None \<longleftrightarrow> (\<forall>x. Some x \<notin> set ds)"
proof -
  have "col_max ds = None \<longleftrightarrow>
        concat (map (\<lambda>d. case d of None \<Rightarrow> [] | Some x \<Rightarrow> [x]) ds) = []"
    unfolding col_max_def by (simp only: list.case_eq_if) simp
  also have "\<dots> \<longleftrightarrow>
        set (concat (map (\<lambda>d. case d of None \<Rightarrow> [] | Some x \<Rightarrow> [x]) ds)) = {}"
    by (simp only: set_empty)
  finally show ?thesis unfolding set_somes by blast
qed

lemma col_max_Some:
  assumes "col_max ds = Some m"
  shows "Some m \<in> set ds" "Some x \<in> set ds \<Longrightarrow> x \<le> m"
proof -
  obtain y ys where ys: "concat (map (\<lambda>d. case d of None \<Rightarrow> [] | Some x \<Rightarrow> [x]) ds) = y # ys"
    and m: "m = fold max ys y"
    using assms unfolding col_max_def by (auto split: list.splits)
  have mx: "m = Max (set (y # ys))"
    unfolding m by (simp only: Max.set_eq_fold)
  have s: "set (y # ys) = {x. Some x \<in> set ds}"
    using set_somes [of ds] unfolding ys .
  have "m \<in> set (y # ys)"
    unfolding mx by (intro Max_in) simp_all
  then show "Some m \<in> set ds" unfolding s by simp
  show "x \<le> m" if "Some x \<in> set ds"
  proof -
    have "x \<in> set (y # ys)" using that unfolding s by simp
    then show ?thesis unfolding mx by (intro Max_ge) simp_all
  qed
qed

lemma filter_window_Cons:
  "filter_window (r # rs) start =
     (case date r of
        None \<Rightarrow> []
      | Some d \<Rightarrow> if start \<le> d then [\<lparr>clade_w = clade r, date_w = d, count_w = count r\<rparr>] else [])
     @ filter_window rs start"
  unfolding filter_window_def by simp

lemma set_filter_window:
  "set (filter_window dataf start) =
     {\<lparr>clade_w = clade r, date_w = d, count_w = count r\<rparr> | r d.
        r \<in> set dataf \<and> date r = Some d \<and> start \<le> d}"
  unfolding filter_window_def by (auto split: option.splits if_splits)

lemma sorted_filter_window:
  "sorted (map date dataf) \<Longrightarrow> sorted (map date_w (filter_window dataf start))"
proof (induction dataf)
  case Nil
  then show ?case by (simp add: filter_window_def)
next
  case (Cons r rs)
  have le: "\<forall>y\<in>set rs. date r \<le> date y" and srt: "sorted (map date rs)"
    using Cons.prems by simp_all
  have ih: "sorted (map date_w (filter_window rs start))"
    using Cons.IH srt by simp
  have "d \<le> date_w x" if d: "date r = Some d" and x: "x \<in> set (filter_window rs start)"
    for d x
  proof -
    obtain r' where "r' \<in> set rs" "date r' = Some (date_w x)"
      using x unfolding set_filter_window by auto
    then have "Some d \<le> Some (date_w x)"
      using le d by force
    then show ?thesis by simp
  qed
  then show ?case
    unfolding filter_window_Cons using ih by (auto split: option.splits)
qed

lemma sorted_in_groups_filter_window:
  "sorted (map date dataf) \<Longrightarrow> sorted_in_groups (filter_window dataf start)"
  unfolding sorted_in_groups_def list_all_iff
  using sorted_filter [OF sorted_filter_window] by blast

lemma preconditions_max:
  assumes "preconditions dataf threshold_weeks"
  obtains max_day where "col_max (map date dataf) = Some max_day"
    "in_range max_day" "in_range (three_sundays_ago max_day threshold_weeks)"
    "three_sundays_ago max_day threshold_weeks \<le> max_day"
proof -
  obtain r rs where "dataf = r # rs"
    using assms unfolding preconditions_def by (cases dataf) auto
  moreover have all: "\<forall>r\<in>set dataf. \<exists>d. date r = Some d \<and> in_range d \<and>
                        in_range (d - (6 + 7 * threshold_weeks))"
    using assms unfolding preconditions_def list_all_iff by (auto split: option.splits)
  ultimately obtain d where "Some d \<in> set (map date dataf)"
    by force
  then obtain m where m: "col_max (map date dataf) = Some m"
    using col_max_None [of "map date dataf"] by (cases "col_max (map date dataf)") auto
  have "Some m \<in> set (map date dataf)"
    using col_max_Some(1) [OF m] .
  then have r: "in_range m" "in_range (m - (6 + 7 * threshold_weeks))"
    using all by auto
  have tw: "0 < threshold_weeks"
    using assms unfolding preconditions_def by simp
  have "in_range (three_sundays_ago m threshold_weeks)"
    "three_sundays_ago m threshold_weeks \<le> m"
    using r tw weekday_bounds [of m] unfolding in_range_def three_sundays_ago_def by linarith+
  then show thesis using that m r(1) by blast
qed

lemma clades_to_model_Inr:
  assumes "clades_to_model e dataf threshold threshold_weeks = Inr res"
  shows "res = select_clades e threshold (prop_dat (weekly_sums (window dataf threshold_weeks)))"
  using assms unfolding clades_to_model_def window_def group_by_dynamic_def Let_def
  by (auto split: option.splits if_splits)

lemma clades_to_model_preconditions:
  assumes "preconditions dataf threshold_weeks"
  shows "clades_to_model e dataf threshold threshold_weeks =
         Inr (select_clades e threshold (prop_dat (weekly_sums (window dataf threshold_weeks))))"
proof -
  obtain m where m: "col_max (map date dataf) = Some m" "in_range m"
    "in_range (three_sundays_ago m threshold_weeks)"
    using preconditions_max [OF assms] by blast
  have "sorted (map date dataf)"
    using assms unfolding preconditions_def by simp
  then have "sorted_in_groups (filter_window dataf (three_sundays_ago m threshold_weeks))"
    by (rule sorted_in_groups_filter_window)
  then show ?thesis
    using m unfolding clades_to_model_def window_def group_by_dynamic_def Let_def by simp
qed

lemma fallback_result:
  assumes "engine_ok e" "9 < length (crossing e threshold rows)"
  defines "res \<equiv> select_clades e threshold (prop_dat (weekly_sums rows))"
  shows "res = take 9 (ranking e (prop_dat (weekly_sums rows)))"
    "length res = 9" "distinct res" "set res \<subseteq> clade_w ` set rows"
    "sorted (map (window_total rows) res)"
    "\<forall>c\<in>clade_w ` set rows - set res. \<forall>c'\<in>set res.
       window_total rows c' \<le> window_total rows c"
proof -
  let ?ys = "ranking e (prop_dat (weekly_sums rows))"
  show r: "res = take 9 ?ys"
    unfolding res_def using assms(1,2) by (rule select_clades_fallback)
  have "9 < length ?ys"
    using assms(2) length_crossing_le_ranking [OF assms(1), of threshold rows] by simp
  then show "length res = 9"
    unfolding r by simp
  show "distinct res"
    unfolding r using ranking_props(1) [OF assms(1)] by (rule distinct_take)
  show "set res \<subseteq> clade_w ` set rows"
    unfolding r using ranking_props(2) [OF assms(1), of rows] set_take_subset [of 9 ?ys] by simp
  have "map (window_total rows) (take 9 ?ys) = take 9 (map (window_total rows) ?ys)"
    by (simp add: take_map)
  then show "sorted (map (window_total rows) res)"
    unfolding r using ranking_props(3) [OF assms(1), of rows] by (simp add: sorted_wrt_take)
  show "\<forall>c\<in>clade_w ` set rows - set res. \<forall>c'\<in>set res.
       window_total rows c' \<le> window_total rows c"
    unfolding r using take_sorted_smallest [OF ranking_props(3) [OF assms(1), of rows]]
      ranking_props(2) [OF assms(1), of rows] by blast
qed

section \<open>The example frames, evaluated\<close>

lemma engine_ok_plain: "engine_ok plain_engine"
  unfolding engine_ok_def plain_engine_def by simp

lemma week_start_examples: "week_start 19716 = 19715" "week_start 19732 = 19729"
  by (simp_all add: week_start_def)

lemma window_ex_many:
  "window ex_many 3 =
     [\<lparr>clade_w = Some ''K'', date_w = 19716, count_w = 1\<rparr>,
      \<lparr>clade_w = Some ''A'', date_w = 19716, count_w = 100\<rparr>,
      \<lparr>clade_w = Some ''B'', date_w = 19716, count_w = 101\<rparr>,
      \<lparr>clade_w = Some ''C'', date_w = 19716, count_w = 102\<rparr>,
      \<lparr>clade_w = Some ''D'', date_w = 19716, count_w = 103\<rparr>,
      \<lparr>clade_w = Some ''E'', date_w = 19716, count_w = 104\<rparr>,
      \<lparr>clade_w = Some ''F'', date_w = 19716, count_w = 105\<rparr>,
      \<lparr>clade_w = Some ''G'', date_w = 19716, count_w = 106\<rparr>,
      \<lparr>clade_w = Some ''H'', date_w = 19716, count_w = 107\<rparr>,
      \<lparr>clade_w = Some ''I'', date_w = 19716, count_w = 108\<rparr>,
      \<lparr>clade_w = Some ''J'', date_w = 19716, count_w = 109\<rparr>,
      \<lparr>clade_w = Some ''A'', date_w = 19732, count_w = 50\<rparr>]"
  by code_simp

lemma preconditions_ex_many: "preconditions ex_many 3"
  by (simp add: preconditions_def ex_many_def row_def in_range_def date_min_def date_max_def)

lemma crossing_ex_many: "9 < length (crossing e (1 / 100) (window ex_many 3))"
  unfolding window_ex_many
  by (simp add: crossing_def crosses_in_def exceeds_def true_div_def week_count_def
      week_total_def week_start_examples cong: conj_cong)

lemma not_crossing_ex_many: "\<not> crosses_in e (1 / 100) (window ex_many 3) (Some ''K'')"
  unfolding window_ex_many
  by (simp add: crosses_in_def exceeds_def true_div_def week_count_def
      week_total_def week_start_examples cong: conj_cong)

lemma window_total_ex_many:
  "Some ''K'' \<in> clade_w ` set (window ex_many 3)"
  "window_total (window ex_many 3) (Some ''K'') = 1"
  "\<forall>c\<in>clade_w ` set (window ex_many 3). c \<noteq> Some ''K'' \<longrightarrow>
     100 \<le> window_total (window ex_many 3) c"
  unfolding window_ex_many by (simp_all add: window_total_def)

section \<open>The fallback to nine clades\<close>

text \<open>
  Claim C3. When more than nine clades cross the threshold in the window, what
  \<^verbatim>\<open>clades_to_model\<close> returns is not the list of the crossing clades but exactly nine
  clades of the window, without repetition, by rising total count over the window, such
  that no clade of the window left out has a smaller total count than a clade returned. On
  an input that meets the preconditions it does return.
\<close>

theorem fallback_nine_smallest:
  assumes "engine_ok e"
    "9 < length (crossing e threshold (window dataf threshold_weeks))"
  shows "(preconditions dataf threshold_weeks \<longrightarrow>
            (\<exists>res. clades_to_model e dataf threshold threshold_weeks = Inr res)) \<and>
         (\<forall>res. clades_to_model e dataf threshold threshold_weeks = Inr res \<longrightarrow>
            length res = 9 \<and> distinct res \<and>
            length res < length (crossing e threshold (window dataf threshold_weeks)) \<and>
            set res \<subseteq> clade_w ` set (window dataf threshold_weeks) \<and>
            sorted (map (window_total (window dataf threshold_weeks)) res) \<and>
            (\<forall>c\<in>clade_w ` set (window dataf threshold_weeks) - set res. \<forall>c'\<in>set res.
               window_total (window dataf threshold_weeks) c' \<le>
               window_total (window dataf threshold_weeks) c))"
proof (intro conjI allI impI)
  assume "preconditions dataf threshold_weeks"
  then show "\<exists>res. clades_to_model e dataf threshold threshold_weeks = Inr res"
    using clades_to_model_preconditions [of dataf threshold_weeks e threshold] by simp
next
  fix res
  assume "clades_to_model e dataf threshold threshold_weeks = Inr res"
  then have res: "res = select_clades e threshold
                         (prop_dat (weekly_sums (window dataf threshold_weeks)))"
    by (rule clades_to_model_Inr)
  note fr = fallback_result(2-6) [OF assms, folded res]
  show "length res = 9" "distinct res"
    "set res \<subseteq> clade_w ` set (window dataf threshold_weeks)"
    "sorted (map (window_total (window dataf threshold_weeks)) res)"
    "\<forall>c\<in>clade_w ` set (window dataf threshold_weeks) - set res. \<forall>c'\<in>set res.
       window_total (window dataf threshold_weeks) c' \<le>
       window_total (window dataf threshold_weeks) c"
    using fr by blast+
  show "length res < length (crossing e threshold (window dataf threshold_weeks))"
    using fr(1) assms(2) by simp
qed

theorem fallback_nine_smallest_witness:
  "engine_ok plain_engine \<and> preconditions ex_many 3 \<and>
   9 < length (crossing plain_engine (1 / 100) (window ex_many 3)) \<and>
   (\<exists>res. clades_to_model plain_engine ex_many (1 / 100) 3 = Inr res \<and>
           length res = 9 \<and> distinct res \<and>
           set res \<subseteq> clade_w ` set (window ex_many 3) \<and>
           sorted (map (window_total (window ex_many 3)) res) \<and>
           (\<forall>c\<in>clade_w ` set (window ex_many 3) - set res. \<forall>c'\<in>set res.
              window_total (window ex_many 3) c' \<le> window_total (window ex_many 3) c))"
proof -
  note t = fallback_nine_smallest [OF engine_ok_plain crossing_ex_many]
  obtain res where "clades_to_model plain_engine ex_many (1 / 100) 3 = Inr res"
    using t preconditions_ex_many by blast
  then show ?thesis
    using t engine_ok_plain preconditions_ex_many crossing_ex_many [of plain_engine]
    by blast
qed

section \<open>At most nine clades, each once\<close>

text \<open>
  Claim C6. On an input that meets the preconditions \<^verbatim>\<open>clades_to_model\<close> returns a list,
  and a list that it returns has at most nine members and no member twice, whether it is
  the list of the clades that cross the threshold or the nine of the fallback.
\<close>

theorem at_most_nine_distinct:
  assumes "engine_ok e"
  shows "(preconditions dataf threshold_weeks \<longrightarrow>
            (\<exists>res. clades_to_model e dataf threshold threshold_weeks = Inr res)) \<and>
         (\<forall>res. clades_to_model e dataf threshold threshold_weeks = Inr res \<longrightarrow>
            length res \<le> 9 \<and> distinct res)"
proof (intro conjI allI impI)
  assume "preconditions dataf threshold_weeks"
  then show "\<exists>res. clades_to_model e dataf threshold threshold_weeks = Inr res"
    using clades_to_model_preconditions [of dataf threshold_weeks e threshold] by simp
next
  fix res
  assume "clades_to_model e dataf threshold threshold_weeks = Inr res"
  then have res: "res = select_clades e threshold
                         (prop_dat (weekly_sums (window dataf threshold_weeks)))"
    by (rule clades_to_model_Inr)
  let ?W = "window dataf threshold_weeks"
  have "length res \<le> 9 \<and> distinct res"
  proof (cases "9 < length (crossing e threshold ?W)")
    case True
    then show ?thesis
      using fallback_result(2,3) [OF assms True] unfolding res by simp
  next
    case False
    have m: "mset res = mset (crossing e threshold ?W)"
      unfolding res using assms False by (rule select_clades_threshold)
    have "length res = length (crossing e threshold ?W)"
      using m by (rule mset_eq_length)
    moreover have "distinct res"
      using mset_eq_imp_distinct_iff [OF m] distinct_crossing [of e threshold ?W] by simp
    ultimately show ?thesis using False by simp
  qed
  then show "length res \<le> 9" "distinct res" by simp_all
qed

theorem at_most_nine_distinct_witness:
  "engine_ok plain_engine \<and> preconditions ex_many 3 \<and>
   (\<exists>res. clades_to_model plain_engine ex_many (1 / 100) 3 = Inr res \<and>
      length res \<le> 9 \<and> distinct res)"
  using at_most_nine_distinct [OF engine_ok_plain, of ex_many 3 "1 / 100"]
    engine_ok_plain preconditions_ex_many
  by blast

section \<open>No clade over the threshold\<close>

text \<open>
  Claim C9 says that \<^verbatim>\<open>clades_to_model\<close> returns the empty list, and never raises, on an
  empty frame and on a frame in which no clade crosses the threshold. On the empty frame
  \<^verbatim>\<open>dataf['date'].max()\<close> is \<^verbatim>\<open>None\<close>, and \<^verbatim>\<open>max_day.weekday()\<close> raises.
\<close>

theorem empty_frame_raises:
  "clades_to_model plain_engine [] (1 / 100) 3 = Inl AttributeError"
  by (simp add: clades_to_model_def col_max_def)

text \<open>
  Claim C9 as amended: on a frame that meets the preconditions, where no clade crosses
  the threshold, \<^verbatim>\<open>clades_to_model\<close> returns the empty list and does not raise.
\<close>

theorem no_crossing_returns_empty:
  assumes "engine_ok e" "preconditions dataf threshold_weeks"
    "crossing e threshold (window dataf threshold_weeks) = []"
  shows "clades_to_model e dataf threshold threshold_weeks = Inr []"
proof -
  let ?W = "window dataf threshold_weeks"
  have "mset (select_clades e threshold (prop_dat (weekly_sums ?W))) =
        mset (crossing e threshold ?W)"
    using assms(1,3) by (intro select_clades_threshold) simp_all
  then have "select_clades e threshold (prop_dat (weekly_sums ?W)) = []"
    using assms(3) by simp
  then show ?thesis
    using clades_to_model_preconditions [OF assms(2), of e threshold] by simp
qed

theorem no_crossing_returns_empty_witness:
  "engine_ok plain_engine \<and> preconditions ex_one 3 \<and>
   crossing plain_engine 1 (window ex_one 3) = [] \<and>
   clades_to_model plain_engine ex_one 1 3 = Inr []"
proof -
  have p: "preconditions ex_one 3"
    by (simp add: preconditions_def ex_one_def row_def in_range_def date_min_def date_max_def)
  have c: "crossing plain_engine 1 (window ex_one 3) = []"
    by (simp add: window_def ex_one_def row_def col_max_def three_sundays_ago_def weekday_def
        filter_window_def crossing_def crosses_in_def exceeds_def true_div_def week_count_def
        week_total_def)
  show ?thesis
    using no_crossing_returns_empty [OF engine_ok_plain p c] engine_ok_plain p c by blast
qed

section \<open>The ranking of the fallback covers the whole window\<close>

text \<open>
  Claim C10. In the fallback the nine clades are the first nine of a ranking of every clade
  of the window by rising total count, whether the clade crosses the threshold or not. So
  the list returned can hold a clade that is over the threshold in no week: in the frame
  \<open>ex_many\<close>, with ten clades over one percent, clade K has one sequence in 1046, and
  every engine returns it.
\<close>

theorem fallback_ranks_every_clade:
  assumes "engine_ok e"
  shows "(\<forall>res. clades_to_model e dataf threshold threshold_weeks = Inr res \<and>
            9 < length (crossing e threshold (window dataf threshold_weeks)) \<longrightarrow>
            (\<exists>ys. distinct ys \<and> set ys = clade_w ` set (window dataf threshold_weeks) \<and>
                  sorted (map (window_total (window dataf threshold_weeks)) ys) \<and>
                  res = take 9 ys)) \<and>
         (\<exists>res. clades_to_model e ex_many (1 / 100) 3 = Inr res \<and>
                9 < length (crossing e (1 / 100) (window ex_many 3)) \<and>
                Some ''K'' \<in> set res \<and>
                \<not> crosses_in e (1 / 100) (window ex_many 3) (Some ''K''))"
proof (intro conjI allI impI)
  fix res
  assume a: "clades_to_model e dataf threshold threshold_weeks = Inr res \<and>
             9 < length (crossing e threshold (window dataf threshold_weeks))"
  let ?W = "window dataf threshold_weeks"
  let ?ys = "ranking e (prop_dat (weekly_sums ?W))"
  have "res = select_clades e threshold (prop_dat (weekly_sums ?W))"
    using a clades_to_model_Inr by blast
  then have "res = take 9 ?ys"
    using a fallback_result(1) [OF assms, of threshold ?W] by simp
  then show "\<exists>ys. distinct ys \<and> set ys = clade_w ` set ?W \<and>
                sorted (map (window_total ?W) ys) \<and> res = take 9 ys"
    using ranking_props [OF assms, of ?W] by blast
next
  let ?W = "window ex_many 3"
  let ?res = "select_clades e (1 / 100) (prop_dat (weekly_sums ?W))"
  have run: "clades_to_model e ex_many (1 / 100) 3 = Inr ?res"
    using preconditions_ex_many by (rule clades_to_model_preconditions)
  note fr = fallback_result [OF assms crossing_ex_many]
  have "Some ''K'' \<in> set ?res"
  proof (rule ccontr)
    assume n: "Some ''K'' \<notin> set ?res"
    have "?res \<noteq> []"
      using fr(2) by auto
    then obtain c' where c': "c' \<in> set ?res"
      by (cases ?res) auto
    then have "c' \<noteq> Some ''K''" "c' \<in> clade_w ` set ?W"
      using n fr(4) by auto
    then have "100 \<le> window_total ?W c'"
      using window_total_ex_many(3) by blast
    moreover have "window_total ?W c' \<le> window_total ?W (Some ''K'')"
      using fr(6) n c' window_total_ex_many(1) by blast
    ultimately show False
      using window_total_ex_many(2) by simp
  qed
  then show "\<exists>res. clades_to_model e ex_many (1 / 100) 3 = Inr res \<and>
                9 < length (crossing e (1 / 100) (window ex_many 3)) \<and>
                Some ''K'' \<in> set res \<and>
                \<not> crosses_in e (1 / 100) (window ex_many 3) (Some ''K'')"
    using run not_crossing_ex_many crossing_ex_many by blast
qed

theorem fallback_ranks_every_clade_witness:
  "engine_ok plain_engine \<and>
   (\<exists>res. clades_to_model plain_engine ex_many (1 / 100) 3 = Inr res \<and>
          9 < length (crossing plain_engine (1 / 100) (window ex_many 3)) \<and>
          (\<exists>ys. distinct ys \<and> set ys = clade_w ` set (window ex_many 3) \<and>
                sorted (map (window_total (window ex_many 3)) ys) \<and> res = take 9 ys) \<and>
          Some ''K'' \<in> set res \<and>
          \<not> crosses_in plain_engine (1 / 100) (window ex_many 3) (Some ''K''))"
  using fallback_ranks_every_clade [OF engine_ok_plain, of ex_many "1 / 100" 3]
    engine_ok_plain
  by blast

section \<open>The frame that \<^verbatim>\<open>data_prep\<close> returns\<close>

lemma keys_group_len: "map agg_key (group_len ks) = remdups ks"
  unfolding group_len_def agg_key_def by (simp add: o_def)

lemma set_group_len:
  "set (group_len ks) =
     (\<lambda>k. \<lparr>location = fst k, date = fst (snd k), clade = snd (snd k),
            count = length (filter (\<lambda>k'. k' = k) ks)\<rparr>) ` set ks"
  unfolding group_len_def by simp

lemma length_filter_kept:
  "length (filter (\<lambda>k'. k' = k)
     (sort_key f (map (row_key cast_date) (filter (keep_row cast_date) dataf)))) =
   length (filter (\<lambda>x. keep_row cast_date x \<and> row_key cast_date x = k) dataf)"
proof -
  have "length (filter (\<lambda>k'. k' = k)
          (sort_key f (map (row_key cast_date) (filter (keep_row cast_date) dataf)))) =
        length (filter (\<lambda>k'. k' = k) (map (row_key cast_date) (filter (keep_row cast_date) dataf)))"
    by (simp only: filter_sort length_sort)
  also have "\<dots> = length (filter (\<lambda>x. keep_row cast_date x \<and> row_key cast_date x = k) dataf)"
    by (simp add: filter_map o_def conj_commute)
  finally show ?thesis .
qed

lemma mset_data_prep:
  assumes "engine_ok e"
  shows "mset (data_prep e cast_date dataf) =
         mset (group_len (sort_key (\<lambda>k. fst (snd k))
                 (map (row_key cast_date) (filter (keep_row cast_date) dataf))))"
proof -
  have "mset (group_order e xs) = mset xs" for xs
    using assms unfolding engine_ok_def by blast
  then show ?thesis
    unfolding data_prep_def Let_def by simp
qed

lemma set_data_prep:
  assumes "engine_ok e"
  shows "set (data_prep e cast_date dataf) =
     (\<lambda>k. \<lparr>location = fst k, date = fst (snd k), clade = snd (snd k),
            count = length (filter (\<lambda>x. keep_row cast_date x \<and> row_key cast_date x = k) dataf)\<rparr>)
       ` row_key cast_date ` {x \<in> set dataf. keep_row cast_date x}"
  using mset_eq_setD [OF mset_data_prep [OF assms, of cast_date dataf]]
  unfolding set_group_len length_filter_kept by simp

lemma data_prep_row:
  assumes "engine_ok e" "r \<in> set (data_prep e cast_date dataf)"
  obtains x where "x \<in> set dataf" "keep_row cast_date x" "row_key cast_date x = agg_key r"
    "count r = length (filter (\<lambda>x. keep_row cast_date x \<and> row_key cast_date x = agg_key r) dataf)"
proof -
  obtain x where x: "x \<in> set dataf" "keep_row cast_date x"
    and r: "r = \<lparr>location = fst (row_key cast_date x), date = fst (snd (row_key cast_date x)),
                 clade = snd (snd (row_key cast_date x)),
                 count = length (filter (\<lambda>y. keep_row cast_date y \<and>
                                  row_key cast_date y = row_key cast_date x) dataf)\<rparr>"
    using assms(2) unfolding set_data_prep [OF assms(1)] by blast
  have k: "agg_key r = row_key cast_date x"
    unfolding agg_key_def by (subst (1 2 3) r) simp
  have "count r = length (filter (\<lambda>y. keep_row cast_date y \<and>
                                  row_key cast_date y = row_key cast_date x) dataf)"
    by (subst r) simp
  then show thesis
    using that [OF x] k by simp
qed

lemma distinct_keys_data_prep:
  assumes "engine_ok e"
  shows "distinct (map agg_key (data_prep e cast_date dataf))"
proof -
  let ?ks = "sort_key (\<lambda>k. fst (snd k))
               (map (row_key cast_date) (filter (keep_row cast_date) dataf))"
  have "mset (map agg_key (data_prep e cast_date dataf)) = mset (map agg_key (group_len ?ks))"
    by (simp only: mset_map mset_data_prep [OF assms])
  then have "mset (map agg_key (data_prep e cast_date dataf)) = mset (remdups ?ks)"
    unfolding keys_group_len .
  then show ?thesis
    using mset_eq_imp_distinct_iff by fastforce
qed

lemma sorted_Some:
  "\<forall>x\<in>set xs. \<exists>d. x = Some d \<Longrightarrow> sorted xs \<Longrightarrow> \<exists>ds. xs = map Some ds \<and> sorted (ds :: int list)"
proof (induction xs)
  case Nil
  then show ?case by simp
next
  case (Cons x xs)
  then obtain ds where ds: "xs = map Some ds" "sorted ds"
    by auto
  obtain d where d: "x = Some d"
    using Cons.prems(1) by auto
  have "\<forall>y\<in>set ds. d \<le> y"
    using Cons.prems(2) unfolding d ds(1) by auto
  then show ?case
    using d ds by (intro exI [of _ "d # ds"]) simp
qed

lemma data_prep_ex_raw:
  "data_prep plain_engine (\<lambda>x. x) ex_raw =
     [\<lparr>location = Some ''Texas'', date = Some 19730, clade = Some ''BA.2'', count = 1\<rparr>,
      \<lparr>location = Some ''California'', date = Some 19732, clade = Some ''XBB'', count = 3\<rparr>]"
  by (simp add: data_prep_def plain_engine_def ex_raw_def raw_def keep_row_def row_key_def
      group_len_def states_def)

section \<open>The filter of \<^verbatim>\<open>data_prep\<close>\<close>

text \<open>
  Claim C4. Every row that \<^verbatim>\<open>data_prep\<close> returns has a date, has a location among the 51
  names of \<open>states\<close>, and comes from a row of the line list with country USA and host Homo
  sapiens; its count is the number of the rows of the line list with its location, date and
  clade that have this country and this host, so no other row is counted.
\<close>

theorem data_prep_filters:
  assumes "engine_ok e"
  shows "length states = 51 \<and> distinct states \<and>
         (\<forall>r\<in>set (data_prep e cast_date dataf).
            (\<exists>d. date r = Some d) \<and>
            (\<exists>s\<in>set states. location r = Some s) \<and>
            (\<exists>x\<in>set dataf. row_key cast_date x = agg_key r \<and>
               country x = Some ''USA'' \<and> host x = Some ''Homo sapiens'') \<and>
            count r = length (filter (\<lambda>x. row_key cast_date x = agg_key r \<and>
                        country x = Some ''USA'' \<and> host x = Some ''Homo sapiens'') dataf))"
proof (intro conjI ballI)
  show "length states = 51" "distinct states"
    by (simp_all add: states_def)
next
  fix r
  assume "r \<in> set (data_prep e cast_date dataf)"
  then obtain x where x: "x \<in> set dataf" "keep_row cast_date x"
    "row_key cast_date x = agg_key r"
    and c: "count r = length (filter (\<lambda>x. keep_row cast_date x \<and>
                         row_key cast_date x = agg_key r) dataf)"
    using data_prep_row [OF assms] by blast
  have loc: "location r = division x" and dt: "date r = cast_date (date_raw x)"
    using x(3) unfolding row_key_def agg_key_def by simp_all
  show d: "\<exists>d. date r = Some d"
    using x(2) unfolding dt keep_row_def by auto
  show l: "\<exists>s\<in>set states. location r = Some s"
    using x(2) unfolding loc keep_row_def by (auto split: option.splits)
  show "\<exists>x\<in>set dataf. row_key cast_date x = agg_key r \<and>
               country x = Some ''USA'' \<and> host x = Some ''Homo sapiens''"
    using x unfolding keep_row_def by blast
  have "keep_row cast_date y \<longleftrightarrow> country y = Some ''USA'' \<and> host y = Some ''Homo sapiens''"
    if "row_key cast_date y = agg_key r" for y
  proof -
    have "division y = location r" "cast_date (date_raw y) = date r"
      using that unfolding row_key_def agg_key_def by simp_all
    then show ?thesis
      using d l unfolding keep_row_def by auto
  qed
  then have "filter (\<lambda>x. keep_row cast_date x \<and> row_key cast_date x = agg_key r) dataf =
             filter (\<lambda>x. row_key cast_date x = agg_key r \<and>
                        country x = Some ''USA'' \<and> host x = Some ''Homo sapiens'') dataf"
    by (intro filter_cong refl) blast
  then show "count r = length (filter (\<lambda>x. row_key cast_date x = agg_key r \<and>
                        country x = Some ''USA'' \<and> host x = Some ''Homo sapiens'') dataf)"
    using c by simp
qed

theorem data_prep_filters_witness:
  "engine_ok plain_engine \<and>
   row ''California'' 19732 ''XBB'' 3 \<in> set (data_prep plain_engine (\<lambda>x. x) ex_raw) \<and>
   (\<exists>d. date (row ''California'' 19732 ''XBB'' 3) = Some d) \<and>
   (\<exists>s\<in>set states. location (row ''California'' 19732 ''XBB'' 3) = Some s) \<and>
   (\<exists>x\<in>set ex_raw. row_key (\<lambda>x. x) x = agg_key (row ''California'' 19732 ''XBB'' 3) \<and>
      country x = Some ''USA'' \<and> host x = Some ''Homo sapiens'') \<and>
   count (row ''California'' 19732 ''XBB'' 3) =
     length (filter (\<lambda>x. row_key (\<lambda>x. x) x = agg_key (row ''California'' 19732 ''XBB'' 3) \<and>
               country x = Some ''USA'' \<and> host x = Some ''Homo sapiens'') ex_raw)"
proof -
  have "row ''California'' 19732 ''XBB'' 3 \<in> set (data_prep plain_engine (\<lambda>x. x) ex_raw)"
    unfolding data_prep_ex_raw row_def by simp
  then show ?thesis
    using data_prep_filters [OF engine_ok_plain, of "\<lambda>x. x" ex_raw] engine_ok_plain by blast
qed

section \<open>The counts of \<^verbatim>\<open>data_prep\<close>\<close>

text \<open>
  Claim C5. In the frame that \<^verbatim>\<open>data_prep\<close> returns no two rows have the same location,
  date and clade; the count of a row is the number of the rows of the line list that pass
  the filter and have its location, date and clade; and every row of the line list that
  passes the filter is counted in a row.
\<close>

theorem data_prep_counts:
  assumes "engine_ok e"
  shows "distinct (map agg_key (data_prep e cast_date dataf)) \<and>
         (\<forall>r\<in>set (data_prep e cast_date dataf).
            count r = length (filter (\<lambda>x. keep_row cast_date x \<and>
                                row_key cast_date x = agg_key r) dataf)) \<and>
         (\<forall>x\<in>set dataf. keep_row cast_date x \<longrightarrow>
            (\<exists>r\<in>set (data_prep e cast_date dataf). agg_key r = row_key cast_date x))"
proof (intro conjI ballI impI)
  show "distinct (map agg_key (data_prep e cast_date dataf))"
    using assms by (rule distinct_keys_data_prep)
next
  fix r
  assume "r \<in> set (data_prep e cast_date dataf)"
  then show "count r = length (filter (\<lambda>x. keep_row cast_date x \<and>
                                row_key cast_date x = agg_key r) dataf)"
    using data_prep_row [OF assms] by blast
next
  fix x
  assume "x \<in> set dataf" "keep_row cast_date x"
  then have "\<lparr>location = fst (row_key cast_date x), date = fst (snd (row_key cast_date x)),
             clade = snd (snd (row_key cast_date x)),
             count = length (filter (\<lambda>y. keep_row cast_date y \<and>
                       row_key cast_date y = row_key cast_date x) dataf)\<rparr>
           \<in> set (data_prep e cast_date dataf)"
    unfolding set_data_prep [OF assms] by blast
  then show "\<exists>r\<in>set (data_prep e cast_date dataf). agg_key r = row_key cast_date x"
    by (rule bexI [rotated]) (simp add: agg_key_def)
qed

theorem data_prep_counts_witness:
  "engine_ok plain_engine \<and>
   row ''California'' 19732 ''XBB'' 3 \<in> set (data_prep plain_engine (\<lambda>x. x) ex_raw) \<and>
   raw ''XBB'' ''USA'' ''California'' ''Homo sapiens'' (Some 19732) \<in> set ex_raw \<and>
   keep_row (\<lambda>x. x) (raw ''XBB'' ''USA'' ''California'' ''Homo sapiens'' (Some 19732)) \<and>
   distinct (map agg_key (data_prep plain_engine (\<lambda>x. x) ex_raw)) \<and>
   count (row ''California'' 19732 ''XBB'' 3) =
     length (filter (\<lambda>x. keep_row (\<lambda>x. x) x \<and>
               row_key (\<lambda>x. x) x = agg_key (row ''California'' 19732 ''XBB'' 3)) ex_raw) \<and>
   (\<exists>r\<in>set (data_prep plain_engine (\<lambda>x. x) ex_raw).
      agg_key r = row_key (\<lambda>x. x) (raw ''XBB'' ''USA'' ''California'' ''Homo sapiens'' (Some 19732)))"
proof -
  have r: "row ''California'' 19732 ''XBB'' 3 \<in> set (data_prep plain_engine (\<lambda>x. x) ex_raw)"
    unfolding data_prep_ex_raw row_def by simp
  have m: "raw ''XBB'' ''USA'' ''California'' ''Homo sapiens'' (Some 19732) \<in> set ex_raw"
    unfolding ex_raw_def by simp
  have k: "keep_row (\<lambda>x. x) (raw ''XBB'' ''USA'' ''California'' ''Homo sapiens'' (Some 19732))"
    by (simp add: keep_row_def raw_def states_def)
  show ?thesis
    using data_prep_counts [OF engine_ok_plain, of "\<lambda>x. x" ex_raw] engine_ok_plain r m k
    by blast
qed

section \<open>The order of \<^verbatim>\<open>data_prep\<close>\<close>

text \<open>
  Claim C7. The dates of the frame that \<^verbatim>\<open>data_prep\<close> returns do not fall from one row
  to the next: the column is sorted, and as no date is null it is a sorted list of days.
\<close>

theorem data_prep_sorted:
  assumes "engine_ok e"
  shows "sorted (map date (data_prep e cast_date dataf)) \<and>
         (\<exists>ds. map date (data_prep e cast_date dataf) = map Some ds \<and> sorted ds)"
proof -
  have s: "sorted (map date (data_prep e cast_date dataf))"
    unfolding data_prep_def Let_def by (rule sorted_sort_key)
  have "\<exists>d. date r = Some d" if r: "r \<in> set (data_prep e cast_date dataf)" for r
  proof -
    obtain x where "keep_row cast_date x" "row_key cast_date x = agg_key r"
      using data_prep_row [OF assms r] by blast
    then show ?thesis
      unfolding keep_row_def row_key_def agg_key_def by auto
  qed
  then have "\<forall>x\<in>set (map date (data_prep e cast_date dataf)). \<exists>d. x = Some d"
    by auto
  then show ?thesis
    using sorted_Some [OF _ s] s by blast
qed

theorem data_prep_sorted_witness:
  "engine_ok plain_engine \<and>
   map date (data_prep plain_engine (\<lambda>x. x) ex_raw) = [Some 19730, Some 19732] \<and>
   sorted (map date (data_prep plain_engine (\<lambda>x. x) ex_raw)) \<and>
   (\<exists>ds. map date (data_prep plain_engine (\<lambda>x. x) ex_raw) = map Some ds \<and> sorted ds)"
proof -
  have "map date (data_prep plain_engine (\<lambda>x. x) ex_raw) = [Some 19730, Some 19732]"
    unfolding data_prep_ex_raw by simp
  then show ?thesis
    using data_prep_sorted [OF engine_ok_plain, of "\<lambda>x. x" ex_raw] engine_ok_plain by blast
qed

section \<open>The current week\<close>

lemma week_start_bounds: "week_start d \<le> d" "d < week_start d + 7"
  unfolding week_start_def by simp_all

lemma week_count_ge:
  "r \<in> set rows \<Longrightarrow> count_w r \<le> week_count rows (clade_w r) (week_start (date_w r))"
  unfolding week_count_def by (intro member_le_sum_list) simp_all

text \<open>
  Claim C2 says that no row of the current week, the week of \<open>max_day\<close> that starts on
  Sunday, enters a weekly group. The code filters \<^verbatim>\<open>date >= three_sundays_ago\<close> and
  nothing else, so on every input that meets the preconditions the rows dated \<open>max_day\<close>
  are in the window, and the weekly frame has a group for their clade in the current week
  that sums them. On the frame \<open>ex_one\<close>, one row of five sequences of clade A on
  2024-01-10, the function returns clade A.
\<close>

theorem current_week_in_window:
  assumes "preconditions dataf threshold_weeks"
  shows "\<exists>max_day df. col_max (map date dataf) = Some max_day \<and>
           group_by_dynamic (window dataf threshold_weeks) = Inr df \<and>
           week_start max_day \<le> max_day \<and> max_day < week_start max_day + 7 \<and>
           (\<exists>r\<in>set dataf. date r = Some max_day \<and>
              (\<exists>x\<in>set df. clade_w x = clade r \<and> date_w x = week_start max_day \<and>
                 count r \<le> count_w x))"
proof -
  let ?W = "window dataf threshold_weeks"
  obtain m where m: "col_max (map date dataf) = Some m"
    and le: "three_sundays_ago m threshold_weeks \<le> m"
    using preconditions_max [OF assms] by blast
  have W: "?W = filter_window dataf (three_sundays_ago m threshold_weeks)"
    unfolding window_def m by simp
  have "sorted (map date dataf)"
    using assms unfolding preconditions_def by simp
  then have g: "group_by_dynamic ?W = Inr (weekly_sums ?W)"
    unfolding W group_by_dynamic_def using sorted_in_groups_filter_window by simp
  obtain r where r: "r \<in> set dataf" "date r = Some m"
    using col_max_Some(1) [OF m] by auto
  let ?y = "\<lparr>clade_w = clade r, date_w = m, count_w = count r\<rparr>"
  have y: "?y \<in> set ?W"
    unfolding W set_filter_window using r le by blast
  let ?x = "\<lparr>clade_w = clade r, date_w = week_start m,
             count_w = week_count ?W (clade r) (week_start m)\<rparr>"
  have "?x \<in> set (weekly_sums ?W)"
    unfolding set_weekly_sums using y by force
  moreover have "count r \<le> week_count ?W (clade r) (week_start m)"
    using week_count_ge [OF y] by simp
  ultimately have "\<exists>x\<in>set (weekly_sums ?W). clade_w x = clade r \<and>
                     date_w x = week_start m \<and> count r \<le> count_w x"
    by (intro bexI [of _ ?x]) simp_all
  then show ?thesis
    using m g r week_start_bounds [of m] by blast
qed

theorem current_week_in_window_witness:
  "preconditions ex_one 3 \<and>
   (\<exists>max_day df. col_max (map date ex_one) = Some max_day \<and>
      group_by_dynamic (window ex_one 3) = Inr df \<and>
      week_start max_day \<le> max_day \<and> max_day < week_start max_day + 7 \<and>
      (\<exists>r\<in>set ex_one. date r = Some max_day \<and>
         (\<exists>x\<in>set df. clade_w x = clade r \<and> date_w x = week_start max_day \<and>
            count r \<le> count_w x)))"
proof -
  have p: "preconditions ex_one 3"
    by (simp add: preconditions_def ex_one_def row_def in_range_def date_min_def date_max_def)
  show ?thesis
    using current_week_in_window [OF p] p by blast
qed

section \<open>The division\<close>







text \<open>The run on \<open>ex_one\<close>: the only row lies in the current week, and its clade is
  returned.\<close>

lemma clades_to_model_ex_one:
  "clades_to_model plain_engine ex_one (1 / 100) 3 = Inr [Some ''A'']"
  by (simp add: clades_to_model_def ex_one_def row_def col_max_def in_range_def date_min_def
      date_max_def three_sundays_ago_def weekday_def filter_window_def group_by_dynamic_def
      sorted_in_groups_def weekly_sums_def week_start_def prop_dat_def total_counts_def
      true_div_def select_clades_def high_prev_variants_def crosses_def plain_engine_def)

end
